theory Spec2Isabelle
  imports Main
begin

section \<open>Strings\<close>

text \<open>
  A JavaScript string is modelled as a \<^typ>\<open>string\<close> whose characters are the code units
  \<open>U+0000\<close> to \<open>U+00FF\<close>. On that range \<open>String.prototype.toLowerCase\<close> works character
  by character: \<open>A\<close>-\<open>Z\<close> and the Latin-1 capitals \<open>U+00C0\<close>-\<open>U+00DE\<close> (without the
  multiplication sign \<open>U+00D7\<close>) move up by 32, every other character stays.
\<close>

definition lowerChar :: "char \<Rightarrow> char" where
  "lowerChar c =
     (let n = (of_char c :: nat)
      in if (65 \<le> n \<and> n \<le> 90) \<or> (192 \<le> n \<and> n \<le> 222 \<and> n \<noteq> 215)
         then char_of (n + 32) else c)"

definition toLowerCase :: "string \<Rightarrow> string" where
  "toLowerCase s = map lowerChar s"

text \<open>\<open>s.startsWith(p)\<close>: the first \<open>p.length\<close> characters of \<open>s\<close> are \<open>p\<close>.\<close>

definition startsWith :: "string \<Rightarrow> string \<Rightarrow> bool" where
  "startsWith s p = (take (length p) s = p)"

text \<open>\<open>s.split(" ")\<close>: the pieces between single blanks; the empty string gives one empty piece.\<close>

fun split :: "string \<Rightarrow> string list" where
  "split [] = [[]]"
| "split (c # cs) =
     (if c = CHR '' '' then [] # split cs
      else (case split cs of [] \<Rightarrow> [[c]] | w # ws \<Rightarrow> (c # w) # ws))"

section \<open>Owner registry (\<open>src/core/models/owner.js\<close>)\<close>

text \<open>
  The persistence layer is an external collaborator. A call into it is recorded in a log,
  together with the owner set that is in memory at the moment of the call. \<open>db.delete\<close>
  returns a promise; the inserts of \<open>setOwners\<close> sit in its \<open>then\<close> callback, so they are
  kept as a pending continuation (the identifiers to insert) until the promise resolves.
\<close>

datatype dbOp =
    DbDelete string "(string \<times> string) list"
  | DbInsert string "(string \<times> string) list"

record ownerRegistry =
  owners :: "string set"
  dbLog :: "(dbOp \<times> string set) list"
  pendingInserts :: "string list list"

definition dbCall :: "dbOp \<Rightarrow> ownerRegistry \<Rightarrow> ownerRegistry" where
  "dbCall op r = r\<lparr>dbLog := dbLog r @ [(op, owners r)]\<rparr>"

definition setOwners :: "string list \<Rightarrow> ownerRegistry \<Rightarrow> ownerRegistry" where
  "setOwners discordUserIds r =
     (if length discordUserIds = 0 then r
      else
        (let r1 = r\<lparr>owners := set discordUserIds\<rparr>;
             r2 = dbCall (DbDelete ''Owners'' []) r1
         in r2\<lparr>pendingInserts := pendingInserts r2 @ [discordUserIds]\<rparr>))"

text \<open>The \<open>then\<close> callback of the oldest pending delete: one insert per identifier.\<close>

definition resolveOwnersDelete :: "ownerRegistry \<Rightarrow> ownerRegistry" where
  "resolveOwnersDelete r =
     (case pendingInserts r of
        [] \<Rightarrow> r
      | ids # rest \<Rightarrow>
          foldl (\<lambda>r' i. dbCall (DbInsert ''Owners'' [(''discordUserId'', i)]) r')
                (r\<lparr>pendingInserts := rest\<rparr>) ids)"

text \<open>\<open>Owner.isOwner\<close>: \<open>discordUserId && Owner._owners.has(discordUserId)\<close>; the empty string is falsy.\<close>

definition isOwner :: "string set \<Rightarrow> string \<Rightarrow> bool" where
  "isOwner os discordUserId = (discordUserId \<noteq> [] \<and> discordUserId \<in> os)"

section \<open>Messages, commands, plugins and guilds\<close>

text \<open>
  The fields of a Discord message that \<open>onMessage\<close> reads. \<open>guild_id\<close> is \<open>None\<close> when
  \<open>message.guild\<close> is \<open>null\<close> (a direct message).
\<close>

record message =
  author_id :: string
  author_bot :: bool
  guild_id :: "string option"
  channel_id :: string
  content :: string

text \<open>
  The command class is not part of the sources at hand. A command is taken with the members
  \<open>onMessage\<close> uses: its trigger, scope and spam flag, the predicate \<open>triggeredBy\<close> (message,
  lower-cased text, and the prefix when it is passed) and the action, of which only
  whether it returns or throws matters to the router.
\<close>

datatype outcome = Returned | Threw

record command =
  trigger :: string
  scope :: string
  bypassSpamDetection :: bool
  triggeredBy :: "message \<Rightarrow> string \<Rightarrow> string option \<Rightarrow> bool"
  doMessageAction :: "message \<Rightarrow> string list \<Rightarrow> outcome"

record plugin =
  name :: string
  prefix :: string
  enabled :: bool
  commands_command :: "command list"
  commands_words :: "command list"
  commands_all :: "command list"

record userRole =
  discordUserId :: "string option"
  discordRoleId :: "string option"
  discordGuildId :: string

text \<open>
  A guild as the router and the registry see it. The getters of the shared guild model
  (\<open>commandPrefix\<close>, \<open>allowedChannelIds\<close>, \<open>enabledPlugins\<close>, \<open>permissions\<close>) are not part of
  the sources at hand and are taken to return the fields the setters write.
  \<open>permissions\<close> maps a plugin id to the \<open>allows\<close> predicate of its permission record; a
  plugin id without a record is \<open>None\<close> (\<open>undefined\<close> in the source).
\<close>

record guild =
  commandPrefix :: string
  allowedChannelIds :: "string set"
  enabledPlugins :: "string set"
  permissions :: "string \<rightharpoonup> (string \<Rightarrow> bool)"
  discordAdmins :: "userRole list"

section \<open>Message routing (\<open>onMessage\<close> in \<open>src/core/discotron.js\<close>)\<close>

text \<open>
  What the router does to the outside world is kept as a list of events: a spam action
  registered for an author, a command action invoked (plugin id, trigger), an error
  logged (plugin name, trigger). The debug line that \<open>onMessage\<close> logs for every message
  is left out. The spam guard is not part of the sources at hand; its state is a type
  parameter, with \<open>onAction\<close> and \<open>isRestricted\<close> given by the environment.
\<close>

datatype event =
    SpamAction string
  | Invoked string string
  | LoggedError string string

datatype error = TypeError

record 'sp rstate =
  spam :: 'sp
  events :: "event list"

record 'sp env =
  maintenance :: bool
  env_owners :: "string set"
  guilds :: "string \<rightharpoonup> guild"
  plugins :: "(string \<times> plugin) list"
  onAction :: "string \<Rightarrow> 'sp \<Rightarrow> 'sp"
  isRestricted :: "string \<Rightarrow> 'sp \<Rightarrow> bool"

text \<open>Lines 59-62: the guild context of a message, absent for a direct message or an unknown guild.\<close>

definition guildOf :: "'sp env \<Rightarrow> message \<Rightarrow> guild option" where
  "guildOf env msg = (case guild_id msg of None \<Rightarrow> None | Some gid \<Rightarrow> guilds env gid)"

text \<open>Line 64: the allowed-channel gate.\<close>

definition channelBlocked :: "guild option \<Rightarrow> message \<Rightarrow> bool" where
  "channelBlocked g msg =
     (case g of None \<Rightarrow> False
      | Some gd \<Rightarrow> channel_id msg \<notin> allowedChannelIds gd \<and> allowedChannelIds gd \<noteq> {})"

text \<open>Line 70.\<close>

definition isCommand :: "guild option \<Rightarrow> message \<Rightarrow> bool" where
  "isCommand g msg =
     (case g of None \<Rightarrow> True | Some gd \<Rightarrow> startsWith (content msg) (commandPrefix gd))"

text \<open>Lines 89-95.\<close>

definition effectivePrefix :: "guild option \<Rightarrow> plugin \<Rightarrow> string" where
  "effectivePrefix g p = (case g of None \<Rightarrow> [] | Some gd \<Rightarrow> commandPrefix gd) @ prefix p"

text \<open>Lines 97-105: the prefix-triggered candidates.\<close>

definition prefixCandidates :: "guild option \<Rightarrow> message \<Rightarrow> plugin \<Rightarrow> command list" where
  "prefixCandidates g msg p =
     (let loweredCaseMessage = toLowerCase (content msg);
          pre = effectivePrefix g p
      in if isCommand g msg \<and> startsWith loweredCaseMessage pre
         then filter (\<lambda>c. triggeredBy c msg loweredCaseMessage (Some pre)) (commands_command p)
         else [])"

text \<open>Lines 107-114: the word-triggered candidates are tried when no prefix candidate matched.\<close>

definition candidates :: "guild option \<Rightarrow> message \<Rightarrow> plugin \<Rightarrow> command list" where
  "candidates g msg p =
     (let commands = prefixCandidates g msg p
      in if length commands = 0
         then commands @ filter (\<lambda>c. triggeredBy c msg (toLowerCase (content msg)) None)
                                (commands_words p)
         else commands)"

text \<open>
  Lines 118-127: the loop over the candidates stops at the first one that does not bypass
  spam detection, registers one action and empties the list for a restricted author.
\<close>

fun spamLoop ::
  "'sp env \<Rightarrow> message \<Rightarrow> command list \<Rightarrow> command list \<Rightarrow> 'sp rstate
     \<Rightarrow> command list \<times> 'sp rstate" where
  "spamLoop env msg commands [] st = (commands, st)"
| "spamLoop env msg commands (c # rest) st =
     (if \<not> bypassSpamDetection c then
        (let st1 = st\<lparr>spam := onAction env (author_id msg) (spam st),
                      events := events st @ [SpamAction (author_id msg)]\<rparr>
         in (if isRestricted env (author_id msg) (spam st1) then [] else commands, st1))
      else spamLoop env msg commands rest st)"

text \<open>Lines 116-128.\<close>

definition spamDetection ::
  "'sp env \<Rightarrow> message \<Rightarrow> command list \<Rightarrow> 'sp rstate \<Rightarrow> command list \<times> 'sp rstate" where
  "spamDetection env msg commands st =
     (if length commands \<noteq> 0 \<and> \<not> isOwner (env_owners env) (author_id msg)
      then spamLoop env msg commands commands st
      else (commands, st))"

text \<open>Lines 130-136: the matching commands of type \<open>all\<close>.\<close>

definition allMatches :: "message \<Rightarrow> plugin \<Rightarrow> command list" where
  "allMatches msg p =
     filter (\<lambda>c. triggeredBy c msg (toLowerCase (content msg)) None) (commands_all p)"

text \<open>Lines 89-136: the commands of one plugin that go on to the execution loop.\<close>

definition selectCommands ::
  "'sp env \<Rightarrow> message \<Rightarrow> guild option \<Rightarrow> plugin \<Rightarrow> 'sp rstate
     \<Rightarrow> command list \<times> 'sp rstate" where
  "selectCommands env msg g p st =
     (case spamDetection env msg (candidates g msg p) st of
        (commands, st1) \<Rightarrow> (commands @ allMatches msg p, st1))"

text \<open>Line 143.\<close>

definition scopeAllows :: "guild option \<Rightarrow> command \<Rightarrow> bool" where
  "scopeAllows g c =
     (scope c = ''everywhere'' \<or> (scope c = ''pm'' \<and> g = None)
      \<or> (scope c = ''guild'' \<and> g \<noteq> None))"

text \<open>Lines 141-150: the execution loop, with its \<open>try\<close>/\<open>catch\<close> around each action.\<close>

fun execute ::
  "guild option \<Rightarrow> message \<Rightarrow> string \<Rightarrow> plugin \<Rightarrow> command list \<Rightarrow> event list" where
  "execute g msg pluginId p [] = []"
| "execute g msg pluginId p (c # cs) =
     (if scopeAllows g c then
        Invoked pluginId (trigger c)
        # (case doMessageAction c msg (split (content msg)) of
             Returned \<Rightarrow> []
           | Threw \<Rightarrow> [LoggedError (name p) (trigger c)])
      else [])
     @ execute g msg pluginId p cs"

definition runPlugin ::
  "'sp env \<Rightarrow> message \<Rightarrow> guild option \<Rightarrow> string \<Rightarrow> plugin \<Rightarrow> 'sp rstate \<Rightarrow> 'sp rstate" where
  "runPlugin env msg g pluginId p st =
     (case selectCommands env msg g p st of
        (commands, st1) \<Rightarrow> st1\<lparr>events := events st1 @ execute g msg pluginId p commands\<rparr>)"

text \<open>
  Lines 73-151, the body of the loop for one plugin. Reading \<open>allows\<close> from a missing
  permission record throws a \<open>TypeError\<close>, which nothing in \<open>onMessage\<close> catches; the
  error is returned with the state reached so far.
\<close>

definition routePlugin ::
  "'sp env \<Rightarrow> message \<Rightarrow> guild option \<Rightarrow> string \<Rightarrow> plugin \<Rightarrow> 'sp rstate
     \<Rightarrow> (error \<times> 'sp rstate) + 'sp rstate" where
  "routePlugin env msg g pluginId p st =
     (if \<not> enabled p then Inr st
      else case g of
        None \<Rightarrow> Inr (runPlugin env msg g pluginId p st)
      | Some gd \<Rightarrow>
          (case permissions gd pluginId of
             None \<Rightarrow> Inl (TypeError, st)
           | Some allows \<Rightarrow>
               if \<not> allows (author_id msg) then Inr st
               else if pluginId \<notin> enabledPlugins gd \<and> enabledPlugins gd \<noteq> {} then Inr st
               else Inr (runPlugin env msg g pluginId p st)))"

text \<open>
  Lines 77-87 read as one condition: the plugin is enabled and, in a guild, its
  permission record allows the author and the guild's enabled-plugin set does not
  exclude it. (A missing permission record makes the condition false; \<open>routePlugin\<close>
  throws there.)
\<close>

definition pluginRuns :: "guild option \<Rightarrow> message \<Rightarrow> string \<Rightarrow> plugin \<Rightarrow> bool" where
  "pluginRuns g msg pluginId p =
     (enabled p \<and>
      (case g of
         None \<Rightarrow> True
       | Some gd \<Rightarrow>
           (case permissions gd pluginId of
              None \<Rightarrow> False
            | Some allows \<Rightarrow>
                allows (author_id msg)
                \<and> \<not> (pluginId \<notin> enabledPlugins gd \<and> enabledPlugins gd \<noteq> {}))))"

fun routePlugins ::
  "'sp env \<Rightarrow> message \<Rightarrow> guild option \<Rightarrow> (string \<times> plugin) list \<Rightarrow> 'sp rstate
     \<Rightarrow> (error \<times> 'sp rstate) + 'sp rstate" where
  "routePlugins env msg g [] st = Inr st"
| "routePlugins env msg g ((pluginId, p) # ps) st =
     (case routePlugin env msg g pluginId p st of
        Inl e \<Rightarrow> Inl e
      | Inr st1 \<Rightarrow> routePlugins env msg g ps st1)"

definition onMessage ::
  "'sp env \<Rightarrow> message \<Rightarrow> 'sp rstate \<Rightarrow> (error \<times> 'sp rstate) + 'sp rstate" where
  "onMessage env msg st =
     (if author_bot msg then Inr st
      else if maintenance env \<and> \<not> isOwner (env_owners env) (author_id msg) then Inr st
      else
        (let g = guildOf env msg
         in if channelBlocked g msg then Inr st
            else routePlugins env msg g (plugins env) st))"

text \<open>The state in which a call of \<open>onMessage\<close> ends, thrown or not.\<close>

definition finalState :: "(error \<times> 'sp rstate) + 'sp rstate \<Rightarrow> 'sp rstate" where
  "finalState r = (case r of Inl (e, st) \<Rightarrow> st | Inr st \<Rightarrow> st)"

text \<open>
  To compare a run with the run in which no action throws: \<open>quiet\<close> replaces the action
  of a command by one that returns, \<open>isInvoked\<close> picks the invocations out of the events.
\<close>

definition isInvoked :: "event \<Rightarrow> bool" where
  "isInvoked e = (case e of Invoked i t \<Rightarrow> True | SpamAction a \<Rightarrow> False | LoggedError n t \<Rightarrow> False)"

definition quiet :: "command \<Rightarrow> command" where
  "quiet c = c\<lparr>doMessageAction := (\<lambda>m ws. Returned)\<rparr>"

definition quietPlugin :: "plugin \<Rightarrow> plugin" where
  "quietPlugin p =
     p\<lparr>commands_command := map quiet (commands_command p),
       commands_words := map quiet (commands_words p),
       commands_all := map quiet (commands_all p)\<rparr>"

definition quietPlugins :: "(string \<times> plugin) list \<Rightarrow> (string \<times> plugin) list" where
  "quietPlugins ps = map (\<lambda>e. (fst e, quietPlugin (snd e))) ps"

section \<open>Enabled plugins of a guild (\<open>Guild.setPluginEnabled\<close>)\<close>

text \<open>
  \<open>installed\<close> are the keys of \<open>Plugin.getAll()\<close> in iteration order. Only the set in
  memory is modelled; the rows written afterwards are a copy of it.
\<close>

definition setPluginEnabled :: "string list \<Rightarrow> string \<Rightarrow> bool \<Rightarrow> guild \<Rightarrow> guild" where
  "setPluginEnabled installed pluginId en g =
     (if enabledPlugins g = {} then
        (if \<not> en then
           g\<lparr>enabledPlugins :=
               foldl (\<lambda>s pluginId'. if pluginId \<noteq> pluginId' then insert pluginId' s else s)
                     (enabledPlugins g) installed\<rparr>
         else g)
      else if en then g\<lparr>enabledPlugins := insert pluginId (enabledPlugins g)\<rparr>
      else g\<lparr>enabledPlugins := enabledPlugins g - {pluginId}\<rparr>)"

section \<open>Guild reconciliation (\<open>updateGuilds\<close>, \<open>Guild.delete\<close>, \<open>Guild.loadDiscordAdmins\<close>)\<close>










section \<open>An example configuration\<close>

text \<open>
  One guild with prefix \<open>!\<close>, one plugin with prefix \<open>p \<close>, a prefix command \<open>hello\<close> and
  a command of type \<open>all\<close> whose action throws; a spam guard that restricts an author from
  the tenth action on.
\<close>

definition ex_hello :: command where
  "ex_hello =
     \<lparr>trigger = ''hello'', scope = ''everywhere'', bypassSpamDetection = False,
      triggeredBy =
        (\<lambda>m l q. case q of None \<Rightarrow> False | Some pre \<Rightarrow> startsWith l (pre @ ''hello'')),
      doMessageAction = (\<lambda>m ws. Returned)\<rparr>"

definition ex_audit :: command where
  "ex_audit =
     \<lparr>trigger = ''audit'', scope = ''guild'', bypassSpamDetection = True,
      triggeredBy = (\<lambda>m l q. True),
      doMessageAction = (\<lambda>m ws. Threw)\<rparr>"

definition ex_plugin :: plugin where
  "ex_plugin =
     \<lparr>name = ''Greeter'', prefix = ''p '', enabled = True,
      commands_command = [ex_hello], commands_words = [], commands_all = [ex_audit]\<rparr>"

definition ex_guild :: guild where
  "ex_guild =
     \<lparr>commandPrefix = ''!'', allowedChannelIds = {}, enabledPlugins = {},
      permissions = [''greeter'' \<mapsto> (\<lambda>u. True)], discordAdmins = []\<rparr>"

definition ex_env :: "nat env" where
  "ex_env =
     \<lparr>maintenance = False, env_owners = {''1''}, guilds = [''g1'' \<mapsto> ex_guild],
      plugins = [(''greeter'', ex_plugin)],
      onAction = (\<lambda>u n. Suc n), isRestricted = (\<lambda>u n. 10 \<le> n)\<rparr>"

definition ex_msg :: message where
  "ex_msg =
     \<lparr>author_id = ''2'', author_bot = False, guild_id = Some ''g1'', channel_id = ''c1'',
      content = ''!p hello''\<rparr>"

definition ex_st :: "nat rstate" where
  "ex_st = \<lparr>spam = 9, events = []\<rparr>"

text \<open>The same message from owner \<open>1\<close>, and states of an author without and with ten actions.\<close>

definition ex_owner_msg :: message where
  "ex_owner_msg = ex_msg\<lparr>author_id := ''1''\<rparr>"

definition ex_st0 :: "nat rstate" where
  "ex_st0 = \<lparr>spam = 0, events = []\<rparr>"

definition ex_st10 :: "nat rstate" where
  "ex_st10 = \<lparr>spam = 10, events = []\<rparr>"

text \<open>The same guild with a permission record that allows nobody.\<close>

definition ex_guild_deny :: guild where
  "ex_guild_deny = ex_guild\<lparr>permissions := [''greeter'' \<mapsto> (\<lambda>u. False)]\<rparr>"

text \<open>
  A second plugin whose first \<open>all\<close> command throws and whose second one returns, and the
  environment with both plugins.
\<close>

definition ex_ping :: command where
  "ex_ping =
     \<lparr>trigger = ''ping'', scope = ''everywhere'', bypassSpamDetection = True,
      triggeredBy = (\<lambda>m l q. True),
      doMessageAction = (\<lambda>m ws. Returned)\<rparr>"

definition ex_plugin2 :: plugin where
  "ex_plugin2 =
     \<lparr>name = ''Second'', prefix = ''s '', enabled = True,
      commands_command = [], commands_words = [], commands_all = [ex_audit, ex_ping]\<rparr>"

definition ex_guild2 :: guild where
  "ex_guild2 =
     ex_guild\<lparr>permissions := [''greeter'' \<mapsto> (\<lambda>u. True), ''second'' \<mapsto> (\<lambda>u. True)]\<rparr>"

definition ex_env2 :: "nat env" where
  "ex_env2 =
     ex_env\<lparr>guilds := [''g1'' \<mapsto> ex_guild2],
            plugins := [(''greeter'', ex_plugin), (''second'', ex_plugin2)]\<rparr>"

text \<open>A guild whose prefix has a letter, and a message that writes it in upper case.\<close>

definition ex_guild_x :: guild where
  "ex_guild_x = ex_guild\<lparr>commandPrefix := ''x!''\<rparr>"

definition ex_shout :: message where
  "ex_shout = ex_msg\<lparr>content := ''X!p hello''\<rparr>"






section \<open>Properties of the owner registry\<close>

lemma dbLog_foldl_inserts:
  "dbLog (foldl (\<lambda>r' i. dbCall (DbInsert t [(k, i)]) r') r ids) =
     dbLog r @ map (\<lambda>i. (DbInsert t [(k, i)], owners r)) ids"
  by (induction ids arbitrary: r) (simp_all add: dbCall_def)

text \<open>
  Claim C8. \<open>setOwners\<close> with an empty array changes nothing: the owner set in memory, the
  log of persistence calls and the pending continuations stay as they were. With a
  non-empty array the owner set in memory becomes exactly the given identifiers, and
  every persistence call that \<open>setOwners\<close> issues (the delete at once, the inserts when the
  delete has resolved) already sees that new owner set in memory.
\<close>

theorem setOwners_noop_or_replace:
  "setOwners [] r = r \<and>
   (ids \<noteq> [] \<longrightarrow>
      owners (setOwners ids r) = set ids \<and>
      dbLog (setOwners ids r) = dbLog r @ [(DbDelete ''Owners'' [], set ids)] \<and>
      dbLog (resolveOwnersDelete (setOwners ids (r\<lparr>pendingInserts := []\<rparr>))) =
        dbLog r @ (DbDelete ''Owners'' [], set ids)
                # map (\<lambda>i. (DbInsert ''Owners'' [(''discordUserId'', i)], set ids)) ids)"
proof -
  have "setOwners [] r = r"
    by (simp add: setOwners_def)
  moreover have "owners (setOwners ids r) = set ids" if "ids \<noteq> []"
    using that by (simp add: setOwners_def dbCall_def Let_def)
  moreover have "dbLog (setOwners ids r) = dbLog r @ [(DbDelete ''Owners'' [], set ids)]"
    if "ids \<noteq> []"
    using that by (simp add: setOwners_def dbCall_def Let_def)
  moreover have
    "dbLog (resolveOwnersDelete (setOwners ids (r\<lparr>pendingInserts := []\<rparr>))) =
       dbLog r @ (DbDelete ''Owners'' [], set ids)
               # map (\<lambda>i. (DbInsert ''Owners'' [(''discordUserId'', i)], set ids)) ids"
    if "ids \<noteq> []"
  proof -
    have "setOwners ids (r\<lparr>pendingInserts := []\<rparr>) =
            r\<lparr>owners := set ids, dbLog := dbLog r @ [(DbDelete ''Owners'' [], set ids)],
              pendingInserts := [ids]\<rparr>"
      using that by (simp add: setOwners_def dbCall_def Let_def)
    then show ?thesis
      by (simp add: resolveOwnersDelete_def dbLog_foldl_inserts)
  qed
  ultimately show ?thesis by blast
qed

theorem setOwners_noop_or_replace_witness:
  "[''42'', ''7''] \<noteq> ([] :: string list) \<and>
   owners (setOwners [''42'', ''7'']
             \<lparr>owners = {''1''}, dbLog = [], pendingInserts = []\<rparr>) = {''42'', ''7''} \<and>
   dbLog (setOwners [''42'', ''7'']
             \<lparr>owners = {''1''}, dbLog = [], pendingInserts = []\<rparr>) =
     [(DbDelete ''Owners'' [], {''42'', ''7''})]"
  using setOwners_noop_or_replace
          [where ids = "[''42'', ''7'']"
             and r = "\<lparr>owners = {''1''}, dbLog = [], pendingInserts = []\<rparr>"]
  by simp

section \<open>Properties of message routing and guild reconciliation\<close>

lemma spamLoop_env_cong:
  "onAction env = onAction env' \<Longrightarrow> isRestricted env = isRestricted env' \<Longrightarrow>
   spamLoop env msg commands cs st = spamLoop env' msg commands cs st"
  by (induction cs) (simp_all add: Let_def)

lemma routePlugin_env_cong:
  assumes "env_owners env = env_owners env'" "onAction env = onAction env'"
    "isRestricted env = isRestricted env'"
  shows "routePlugin env msg g pluginId p st = routePlugin env' msg g pluginId p st"
proof -
  have "spamDetection env msg cs st = spamDetection env' msg cs st" for cs
    using assms spamLoop_env_cong [of env env'] by (simp add: spamDetection_def)
  then have "runPlugin env msg g' pluginId p st = runPlugin env' msg g' pluginId p st" for g'
    by (simp add: runPlugin_def selectCommands_def)
  then show ?thesis
    by (simp add: routePlugin_def split: option.splits)
qed

lemma routePlugins_env_cong:
  assumes "env_owners env = env_owners env'" "onAction env = onAction env'"
    "isRestricted env = isRestricted env'"
  shows "routePlugins env msg g ps st = routePlugins env' msg g ps st"
proof (induction ps arbitrary: st)
  case Nil
  show ?case by simp
next
  case (Cons a ps)
  obtain pluginId p where a: "a = (pluginId, p)" by (cases a)
  show ?case
    using Cons.IH routePlugin_env_cong [OF assms, of msg g pluginId p st]
    by (simp add: a split: sum.splits)
qed

lemma runPlugin_guild_cong:
  "commandPrefix gd = commandPrefix gd' \<Longrightarrow>
   runPlugin env msg (Some gd) pluginId p st = runPlugin env msg (Some gd') pluginId p st"
proof -
  assume h: "commandPrefix gd = commandPrefix gd'"
  have "candidates (Some gd) msg p = candidates (Some gd') msg p"
    using h by (simp add: candidates_def prefixCandidates_def isCommand_def effectivePrefix_def)
  moreover have "execute (Some gd) msg pluginId p cs = execute (Some gd') msg pluginId p cs" for cs
    by (induction cs) (simp_all add: scopeAllows_def)
  ultimately show ?thesis
    by (simp add: runPlugin_def selectCommands_def)
qed

text \<open>
  Claim C4. In a guild whose set of allowed channels is not empty, a message from a
  channel outside the set is ignored: \<open>onMessage\<close> returns with the state untouched, so
  no spam action is registered and no command is invoked. With an empty set, or from a
  channel in the set, a message that passed the bot and maintenance checks goes on to the
  plugin loop.
\<close>
theorem allowed_channel_gate:
  assumes "guildOf env msg = Some gd"
  shows "(allowedChannelIds gd \<noteq> {} \<and> channel_id msg \<notin> allowedChannelIds gd
            \<longrightarrow> onMessage env msg st = Inr st) \<and>
         ((allowedChannelIds gd = {} \<or> channel_id msg \<in> allowedChannelIds gd)
            \<and> \<not> author_bot msg
            \<and> \<not> (maintenance env \<and> \<not> isOwner (env_owners env) (author_id msg))
            \<longrightarrow> onMessage env msg st = routePlugins env msg (Some gd) (plugins env) st)"
  using assms by (auto simp add: onMessage_def channelBlocked_def Let_def)

lemma execute_no_spam: "SpamAction a \<notin> set (execute g msg pluginId p cs)"
  by (induction cs) (simp_all split: outcome.splits)

lemma spamDetection_owner:
  "isOwner (env_owners env) (author_id msg) \<Longrightarrow> spamDetection env msg cs st = (cs, st)"
  by (simp add: spamDetection_def)

lemma routePlugin_owner:
  assumes "isOwner (env_owners env) (author_id msg)"
  shows "spam (finalState (routePlugin env msg g pluginId p st)) = spam st \<and>
         (\<exists>evs. events (finalState (routePlugin env msg g pluginId p st)) = events st @ evs
                \<and> (\<forall>a. SpamAction a \<notin> set evs))"
  using assms execute_no_spam
  by (auto simp add: routePlugin_def finalState_def runPlugin_def selectCommands_def
      spamDetection_owner split: option.splits)

lemma routePlugins_owner:
  assumes "isOwner (env_owners env) (author_id msg)"
  shows "spam (finalState (routePlugins env msg g ps st)) = spam st \<and>
         (\<exists>evs. events (finalState (routePlugins env msg g ps st)) = events st @ evs
                \<and> (\<forall>a. SpamAction a \<notin> set evs))"
proof (induction ps arbitrary: st)
  case Nil
  show ?case by (simp add: finalState_def)
next
  case (Cons a ps)
  obtain pluginId p where a: "a = (pluginId, p)" by (cases a)
  show ?case
  proof (cases "routePlugin env msg g pluginId p st")
    case (Inl e)
    then show ?thesis
      using routePlugin_owner [OF assms, of g pluginId p st] by (simp add: a)
  next
    case (Inr st1)
    from routePlugin_owner [OF assms, of g pluginId p st] Inr
    obtain evs1 where 1: "spam st1 = spam st" "events st1 = events st @ evs1"
      "\<forall>a. SpamAction a \<notin> set evs1"
      by (auto simp add: finalState_def)
    from Cons.IH [of st1]
    obtain evs2 where 2: "spam (finalState (routePlugins env msg g ps st1)) = spam st1"
      "events (finalState (routePlugins env msg g ps st1)) = events st1 @ evs2"
      "\<forall>a. SpamAction a \<notin> set evs2"
      by blast
    have "events (finalState (routePlugins env msg g ps st1)) = events st @ (evs1 @ evs2)"
      using 1 2 by simp
    moreover have "\<forall>a. SpamAction a \<notin> set (evs1 @ evs2)"
      using 1 2 by simp
    ultimately show ?thesis
      using 1 2 Inr by (simp only: a routePlugins.simps sum.case) metis
  qed
qed

text \<open>
  Claim C5. In maintenance mode a message of an author who is not an owner is ignored with
  the state untouched. For an owner the maintenance flag makes no difference to the
  result of \<open>onMessage\<close>: a message of an owner that is not from a bot and not from a
  blocked channel reaches the plugin loop whatever the flag is. For an owner the spam gate
  does nothing: it keeps every candidate and leaves the state as it is, whatever the spam
  guard would answer, so the commands of a plugin that go on to execution are all its
  candidates and all its matching \<open>all\<close> commands; over the whole message the spam guard's
  state is left as it was and no spam action is registered.
\<close>

theorem maintenance_and_owner:
  "(maintenance env \<and> \<not> isOwner (env_owners env) (author_id msg)
      \<longrightarrow> onMessage env msg st = Inr st) \<and>
   (isOwner (env_owners env) (author_id msg) \<longrightarrow>
      onMessage (env\<lparr>maintenance := True\<rparr>) msg st
        = onMessage (env\<lparr>maintenance := False\<rparr>) msg st \<and>
      (\<not> author_bot msg \<and> \<not> channelBlocked (guildOf env msg) msg \<longrightarrow>
         onMessage env msg st = routePlugins env msg (guildOf env msg) (plugins env) st) \<and>
      spamDetection env msg cs st = (cs, st) \<and>
      selectCommands env msg g p st = (candidates g msg p @ allMatches msg p, st) \<and>
      spam (finalState (onMessage env msg st)) = spam st \<and>
      (\<exists>evs. events (finalState (onMessage env msg st)) = events st @ evs
             \<and> (\<forall>a. SpamAction a \<notin> set evs)))"
proof -
  have 1: "onMessage env msg st = Inr st"
    if "maintenance env" "\<not> isOwner (env_owners env) (author_id msg)"
    using that by (simp add: onMessage_def)
  have 2: "onMessage (env\<lparr>maintenance := True\<rparr>) msg st
        = onMessage (env\<lparr>maintenance := False\<rparr>) msg st"
    if "isOwner (env_owners env) (author_id msg)"
  proof -
    have "routePlugins (env\<lparr>maintenance := True\<rparr>) msg g ps st
        = routePlugins (env\<lparr>maintenance := False\<rparr>) msg g ps st" for g ps
      by (rule routePlugins_env_cong) simp_all
    moreover have "guildOf (env\<lparr>maintenance := b\<rparr>) msg = guildOf env msg" for b
      by (simp add: guildOf_def split: option.splits)
    ultimately show ?thesis
      using that by (simp add: onMessage_def Let_def)
  qed
  have 3: "spam (finalState (onMessage env msg st)) = spam st \<and>
      (\<exists>evs. events (finalState (onMessage env msg st)) = events st @ evs
             \<and> (\<forall>a. SpamAction a \<notin> set evs))"
    if "isOwner (env_owners env) (author_id msg)"
    using routePlugins_owner [OF that, of "guildOf env msg" "plugins env" st]
    by (simp add: onMessage_def Let_def finalState_def)
  have 4: "onMessage env msg st = routePlugins env msg (guildOf env msg) (plugins env) st"
    if "isOwner (env_owners env) (author_id msg)" "\<not> author_bot msg"
      "\<not> channelBlocked (guildOf env msg) msg"
    using that by (simp add: onMessage_def Let_def)
  have 5: "spamDetection env msg cs st = (cs, st)"
    if "isOwner (env_owners env) (author_id msg)"
    using that by (rule spamDetection_owner)
  have 6: "selectCommands env msg g p st = (candidates g msg p @ allMatches msg p, st)"
    if "isOwner (env_owners env) (author_id msg)"
    using that by (simp add: selectCommands_def spamDetection_owner)
  show ?thesis using 1 2 3 4 5 6 by blast
qed

lemma routePlugin_sentinel:
  assumes "enabledPlugins gd = {}" "pluginId \<in> S"
  shows "routePlugin env msg (Some gd) pluginId p st
       = routePlugin env msg (Some (gd\<lparr>enabledPlugins := S\<rparr>)) pluginId p st"
proof -
  have "runPlugin env msg (Some gd) pluginId p st
      = runPlugin env msg (Some (gd\<lparr>enabledPlugins := S\<rparr>)) pluginId p st"
    by (rule runPlugin_guild_cong) simp
  then show ?thesis
    using assms by (simp add: routePlugin_def split: option.splits)
qed


lemma routePlugin_cases:
  "routePlugin env msg g pluginId p st =
     (if enabled p \<and> (\<exists>gd. g = Some gd \<and> permissions gd pluginId = None)
      then Inl (TypeError, st)
      else if pluginRuns g msg pluginId p then Inr (runPlugin env msg g pluginId p st)
      else Inr st)"
  by (cases g) (auto simp add: routePlugin_def pluginRuns_def split: option.splits)

lemma routePlugins_fold:
  assumes "\<forall>(pluginId, p) \<in> set ps.
             enabled p \<longrightarrow> (case g of None \<Rightarrow> True | Some gd \<Rightarrow> permissions gd pluginId \<noteq> None)"
  shows "routePlugins env msg g ps st =
           Inr (foldl (\<lambda>s (pluginId, p).
                         if pluginRuns g msg pluginId p then runPlugin env msg g pluginId p s
                         else s) st ps)"
  using assms
proof (induction ps arbitrary: st)
  case Nil
  show ?case by simp
next
  case (Cons a ps)
  obtain pluginId p where a: "a = (pluginId, p)" by (cases a)
  have "\<not> (enabled p \<and> (\<exists>gd. g = Some gd \<and> permissions gd pluginId = None))"
    using Cons.prems a by auto
  then have "routePlugin env msg g pluginId p st =
      Inr (if pluginRuns g msg pluginId p then runPlugin env msg g pluginId p st else st)"
    by (simp add: routePlugin_cases)
  moreover have "\<forall>(pluginId, p) \<in> set ps.
             enabled p \<longrightarrow> (case g of None \<Rightarrow> True | Some gd \<Rightarrow> permissions gd pluginId \<noteq> None)"
    using Cons.prems by simp
  ultimately show ?case
    using Cons.IH by (simp add: a)
qed





lemma foldl_materialize:
  "foldl (\<lambda>s q. if pluginId \<noteq> q then insert q s else s) A installed
     = A \<union> (set installed - {pluginId})"
  by (induction installed arbitrary: A) auto

text \<open>
  Claim C6. On an empty \<open>enabledPlugins\<close> set, disabling a plugin fills the set with every
  installed plugin but that one, and enabling a plugin leaves the guild as it is. Disabling
  the only listed plugin empties the set, and the router then treats every plugin, the one
  just disabled too, as it treats a plugin that is listed: the plugin just disabled, when it
  is enabled globally and its permission record allows the author, is run.
\<close>

theorem setPluginEnabled_sentinel:
  "(enabledPlugins g = {} \<longrightarrow>
      enabledPlugins (setPluginEnabled installed pluginId False g) = set installed - {pluginId}
      \<and> setPluginEnabled installed pluginId True g = g) \<and>
   (enabledPlugins g = {pluginId} \<and> q \<in> S \<longrightarrow>
      enabledPlugins (setPluginEnabled installed pluginId False g) = {} \<and>
      routePlugin env msg (Some (setPluginEnabled installed pluginId False g)) q p st
        = routePlugin env msg (Some (g\<lparr>enabledPlugins := S\<rparr>)) q p st) \<and>
   (enabledPlugins g = {pluginId} \<and> enabled p \<and> permissions g pluginId = Some allows
      \<and> allows (author_id msg) \<longrightarrow>
      routePlugin env msg (Some (setPluginEnabled installed pluginId False g)) pluginId p st
        = Inr (runPlugin env msg (Some (setPluginEnabled installed pluginId False g))
                 pluginId p st))"
proof -
  have a: "enabledPlugins (setPluginEnabled installed pluginId False g)
             = set installed - {pluginId}"
    if "enabledPlugins g = {}"
    using that by (simp add: setPluginEnabled_def foldl_materialize)
  have b: "setPluginEnabled installed pluginId True g = g" if "enabledPlugins g = {}"
    using that by (simp add: setPluginEnabled_def)
  have c: "enabledPlugins (setPluginEnabled installed pluginId False g) = {}"
    if "enabledPlugins g = {pluginId}"
    using that by (simp add: setPluginEnabled_def)
  have d: "routePlugin env msg (Some (setPluginEnabled installed pluginId False g)) q p st
        = routePlugin env msg (Some (g\<lparr>enabledPlugins := S\<rparr>)) q p st"
    if h: "enabledPlugins g = {pluginId}" and q: "q \<in> S"
  proof -
    let ?g' = "setPluginEnabled installed pluginId False g"
    have e: "enabledPlugins ?g' = {}" using h by (rule c)
    have "?g'\<lparr>enabledPlugins := S\<rparr> = g\<lparr>enabledPlugins := S\<rparr>"
      using h by (simp add: setPluginEnabled_def)
    with routePlugin_sentinel [OF e q, of env msg p st]
    show ?thesis by simp
  qed
  have r: "routePlugin env msg (Some (setPluginEnabled installed pluginId False g)) pluginId p st
        = Inr (runPlugin env msg (Some (setPluginEnabled installed pluginId False g))
                 pluginId p st)"
    if h: "enabledPlugins g = {pluginId}" and "enabled p"
      and "permissions g pluginId = Some allows" and "allows (author_id msg)"
  proof -
    let ?g' = "setPluginEnabled installed pluginId False g"
    have "enabledPlugins ?g' = {}" using h by (rule c)
    moreover have "permissions ?g' pluginId = Some allows"
      using that by (simp add: setPluginEnabled_def)
    ultimately show ?thesis
      using that by (simp add: routePlugin_def)
  qed
  show ?thesis using a b c d r by blast
qed

lemma spamLoop_first:
  "\<exists>c \<in> set cs. \<not> bypassSpamDetection c \<Longrightarrow>
   spamLoop env msg commands cs st =
     (if isRestricted env (author_id msg) (onAction env (author_id msg) (spam st))
      then [] else commands,
      st\<lparr>spam := onAction env (author_id msg) (spam st),
         events := events st @ [SpamAction (author_id msg)]\<rparr>)"
  by (induction cs) (auto simp add: Let_def)

text \<open>
  Claim C1. When the author is not an owner and some prefix- or word-triggered candidate
  of the plugin does not bypass spam detection, exactly one spam action is registered for
  the author; when the author is then restricted, all those candidates are dropped and
  the commands that go on to execution are exactly the matching \<open>all\<close> commands, which
  are run as usual.
\<close>
theorem spam_gate:
  assumes "\<not> isOwner (env_owners env) (author_id msg)"
    and "candidates g msg p \<noteq> []"
    and "\<exists>c \<in> set (candidates g msg p). \<not> bypassSpamDetection c"
  shows "selectCommands env msg g p st =
           ((if isRestricted env (author_id msg) (onAction env (author_id msg) (spam st))
             then [] else candidates g msg p) @ allMatches msg p,
            st\<lparr>spam := onAction env (author_id msg) (spam st),
               events := events st @ [SpamAction (author_id msg)]\<rparr>)
       \<and> (isRestricted env (author_id msg) (onAction env (author_id msg) (spam st)) \<longrightarrow>
            runPlugin env msg g pluginId p st =
              st\<lparr>spam := onAction env (author_id msg) (spam st),
                 events := events st @ SpamAction (author_id msg)
                             # execute g msg pluginId p (allMatches msg p)\<rparr>)"
  using assms spamLoop_first [OF assms(3), of env msg "candidates g msg p" st]
  by (simp add: selectCommands_def spamDetection_def runPlugin_def)

lemma toLowerCase_take: "toLowerCase (take n s) = take n (toLowerCase s)"
  by (simp add: toLowerCase_def take_map)

text \<open>
  Claim C2, as amended. In a guild, a prefix-triggered candidate exists only if the raw
  message text starts with the guild prefix as configured (a case-sensitive test) and
  the lower-cased text starts with guild prefix followed by plugin prefix, neither of them
  case-folded; hence only if the guild prefix has no upper-case letter.
\<close>
theorem prefix_checks:
  assumes "prefixCandidates (Some gd) msg p \<noteq> []"
  shows "startsWith (content msg) (commandPrefix gd) \<and>
         startsWith (toLowerCase (content msg)) (commandPrefix gd @ prefix p) \<and>
         toLowerCase (commandPrefix gd) = commandPrefix gd"
proof -
  have 1: "startsWith (content msg) (commandPrefix gd)"
    and 2: "startsWith (toLowerCase (content msg)) (commandPrefix gd @ prefix p)"
    using assms
    by (auto simp add: prefixCandidates_def isCommand_def effectivePrefix_def Let_def
        split: if_splits)
  let ?n = "length (commandPrefix gd)"
  from 2 have "take ?n (take (?n + length (prefix p)) (toLowerCase (content msg)))
             = take ?n (commandPrefix gd @ prefix p)"
    by (simp add: startsWith_def)
  then have "take ?n (toLowerCase (content msg)) = commandPrefix gd"
    by (simp add: min_def)
  moreover from 1 have "toLowerCase (take ?n (content msg)) = toLowerCase (commandPrefix gd)"
    by (simp add: startsWith_def)
  ultimately have "toLowerCase (commandPrefix gd) = commandPrefix gd"
    by (simp add: toLowerCase_take)
  with 1 2 show ?thesis by simp
qed

lemma routePlugins_completes_iff:
  "(\<exists>st'. routePlugins env msg (Some gd) ps st = Inr st') \<longleftrightarrow>
   (\<forall>(pluginId, p) \<in> set ps. enabled p \<longrightarrow> permissions gd pluginId \<noteq> None)"
proof (induction ps arbitrary: st)
  case Nil
  show ?case by simp
next
  case (Cons a ps)
  obtain pluginId p where a: "a = (pluginId, p)" by (cases a)
  show ?case
  proof (cases "enabled p \<and> permissions gd pluginId = None")
    case True
    then show ?thesis by (auto simp add: a routePlugin_def)
  next
    case False
    then have "\<exists>st1. routePlugin env msg (Some gd) pluginId p st = Inr st1"
      by (cases "permissions gd pluginId") (simp_all add: routePlugin_def)
    then obtain st1 where "routePlugin env msg (Some gd) pluginId p st = Inr st1" ..
    then show ?thesis
      using False Cons.IH [of st1] by (auto simp add: a)
  qed
qed

lemma execute_invoked:
  "filter isInvoked (execute g msg pluginId p cs)
     = map (\<lambda>c. Invoked pluginId (trigger c)) (filter (scopeAllows g) cs)"
  by (induction cs) (simp_all add: isInvoked_def split: outcome.splits)

lemma execute_logged:
  "filter (\<lambda>e. \<not> isInvoked e) (execute g msg pluginId p cs)
     = map (\<lambda>c. LoggedError (name p) (trigger c))
           (filter (\<lambda>c. scopeAllows g c \<and> doMessageAction c msg (split (content msg)) = Threw) cs)"
  by (induction cs) (simp_all add: isInvoked_def split: outcome.splits)

lemma spamLoop_none:
  "\<forall>c \<in> set cs. bypassSpamDetection c \<Longrightarrow> spamLoop env msg commands cs st = (commands, st)"
  by (induction cs) simp_all

lemma spamDetection_closed:
  "spamDetection env msg cs st =
     (if \<not> isOwner (env_owners env) (author_id msg) \<and> (\<exists>c \<in> set cs. \<not> bypassSpamDetection c)
      then (if isRestricted env (author_id msg) (onAction env (author_id msg) (spam st))
            then [] else cs,
            st\<lparr>spam := onAction env (author_id msg) (spam st),
               events := events st @ [SpamAction (author_id msg)]\<rparr>)
      else (cs, st))"
proof (cases "\<exists>c \<in> set cs. \<not> bypassSpamDetection c")
  case True
  then have "cs \<noteq> []" by auto
  then show ?thesis
    using True spamLoop_first [OF True, of env msg cs st] by (simp add: spamDetection_def)
next
  case False
  then have "\<forall>c \<in> set cs. bypassSpamDetection c" by simp
  then show ?thesis
    using spamLoop_none [of cs env msg cs st] False by (simp add: spamDetection_def)
qed

lemma filter_map_quiet:
  "filter (\<lambda>c. triggeredBy c m l q) (map quiet cs) = map quiet (filter (\<lambda>c. triggeredBy c m l q) cs)"
  by (induction cs) (simp_all add: quiet_def)

lemma candidates_quiet: "candidates g msg (quietPlugin p) = map quiet (candidates g msg p)"
proof -
  have "effectivePrefix g (quietPlugin p) = effectivePrefix g p"
    by (simp add: effectivePrefix_def quietPlugin_def)
  then have "prefixCandidates g msg (quietPlugin p) = map quiet (prefixCandidates g msg p)"
    by (simp add: prefixCandidates_def Let_def filter_map_quiet quietPlugin_def)
  then show ?thesis
    by (simp add: candidates_def Let_def filter_map_quiet quietPlugin_def)
qed

lemma allMatches_quiet: "allMatches msg (quietPlugin p) = map quiet (allMatches msg p)"
  by (simp add: allMatches_def filter_map_quiet quietPlugin_def)

lemma execute_quiet_invoked:
  "filter isInvoked (execute g msg pluginId q (map quiet cs))
     = filter isInvoked (execute g msg pluginId p cs)"
proof -
  have "filter (scopeAllows g) (map quiet cs) = map quiet (filter (scopeAllows g) cs)"
    by (induction cs) (simp_all add: quiet_def scopeAllows_def)
  then show ?thesis
    by (simp add: execute_invoked quiet_def comp_def)
qed

lemma runPlugin_quiet:
  assumes "spam st = spam st'"
    and "filter isInvoked (events st) = filter isInvoked (events st')"
  shows "spam (runPlugin env msg g pluginId p st)
           = spam (runPlugin env msg g pluginId (quietPlugin p) st') \<and>
         filter isInvoked (events (runPlugin env msg g pluginId p st))
           = filter isInvoked (events (runPlugin env msg g pluginId (quietPlugin p) st'))"
proof -
  have b: "bypassSpamDetection (quiet c) = bypassSpamDetection c" for c
    by (simp add: quiet_def)
  have e: "filter isInvoked (execute g msg pluginId (quietPlugin p) (map quiet cs @ map quiet ds))
         = filter isInvoked (execute g msg pluginId p (cs @ ds))" for cs ds
    using execute_quiet_invoked [of g msg pluginId "quietPlugin p" "cs @ ds" p] by simp
  show ?thesis
    using assms e [of "candidates g msg p" "allMatches msg p"] e [of "[]" "allMatches msg p"]
    by (simp add: runPlugin_def selectCommands_def spamDetection_closed candidates_quiet
        allMatches_quiet b isInvoked_def del: map_append)
qed

lemma routePlugin_quiet:
  assumes "spam st = spam st'"
    and "filter isInvoked (events st) = filter isInvoked (events st')"
  shows "isl (routePlugin env msg g pluginId p st)
           = isl (routePlugin env msg g pluginId (quietPlugin p) st') \<and>
         spam (finalState (routePlugin env msg g pluginId p st))
           = spam (finalState (routePlugin env msg g pluginId (quietPlugin p) st')) \<and>
         filter isInvoked (events (finalState (routePlugin env msg g pluginId p st)))
           = filter isInvoked
               (events (finalState (routePlugin env msg g pluginId (quietPlugin p) st')))"
proof -
  have en: "enabled (quietPlugin p) = enabled p" by (simp add: quietPlugin_def)
  show ?thesis
  proof (cases g)
    case None
    then show ?thesis
      using assms runPlugin_quiet [OF assms, of env msg None pluginId p]
      by (simp add: routePlugin_def finalState_def en)
  next
    case (Some gd)
    then show ?thesis
      using assms runPlugin_quiet [OF assms, of env msg "Some gd" pluginId p]
      by (simp add: routePlugin_def finalState_def en split: option.splits)
  qed
qed

lemma routePlugins_quiet:
  assumes "spam st = spam st'"
    and "filter isInvoked (events st) = filter isInvoked (events st')"
  shows "isl (routePlugins env msg g ps st)
           = isl (routePlugins env msg g (quietPlugins ps) st') \<and>
         spam (finalState (routePlugins env msg g ps st))
           = spam (finalState (routePlugins env msg g (quietPlugins ps) st')) \<and>
         filter isInvoked (events (finalState (routePlugins env msg g ps st)))
           = filter isInvoked
               (events (finalState (routePlugins env msg g (quietPlugins ps) st')))"
  using assms
proof (induction ps arbitrary: st st')
  case Nil
  then show ?case by (simp add: quietPlugins_def finalState_def)
next
  case (Cons a ps)
  obtain pluginId p where a: "a = (pluginId, p)" by (cases a)
  note r = routePlugin_quiet [OF Cons.prems, of env msg g pluginId p]
  show ?case
  proof (cases "routePlugin env msg g pluginId p st")
    case (Inl e)
    then obtain e' where "routePlugin env msg g pluginId (quietPlugin p) st' = Inl e'"
      using r by (cases "routePlugin env msg g pluginId (quietPlugin p) st'") simp_all
    then show ?thesis
      using r Inl by (simp add: a quietPlugins_def)
  next
    case (Inr st1)
    then obtain st1' where q: "routePlugin env msg g pluginId (quietPlugin p) st' = Inr st1'"
      using r by (cases "routePlugin env msg g pluginId (quietPlugin p) st'") simp_all
    have "spam st1 = spam st1'" "filter isInvoked (events st1) = filter isInvoked (events st1')"
      using r Inr q by (simp_all add: finalState_def)
    from Cons.IH [OF this] show ?thesis
      using Inr q by (simp add: a quietPlugins_def)
  qed
qed

text \<open>
  Claim C9. A message that passed the gates is handed to the plugin loop; as long as no
  permission record is missing the loop runs every plugin that is not skipped, one after
  the other, whatever the actions of the plugins before it did; and what a plugin adds to
  the events is what the execution loop gives on its selected commands. In the execution
  loop every candidate whose scope fits is invoked, in order, whatever the actions before
  it did, and every action that throws leaves one logged error with the plugin name and
  the trigger of the command. For the whole message, whether \<open>onMessage\<close> completes, the
  spam guard's state and the sequence of invocations are the same as if no action had
  thrown.
\<close>

theorem failure_isolation:
  "(\<not> author_bot msg \<and> \<not> (maintenance env \<and> \<not> isOwner (env_owners env) (author_id msg))
      \<and> \<not> channelBlocked (guildOf env msg) msg \<longrightarrow>
      onMessage env msg st = routePlugins env msg (guildOf env msg) (plugins env) st) \<and>
   ((\<forall>(i, q) \<in> set ps.
        enabled q \<longrightarrow> (case g of None \<Rightarrow> True | Some gd \<Rightarrow> permissions gd i \<noteq> None)) \<longrightarrow>
      routePlugins env msg g ps st
        = Inr (foldl (\<lambda>s (i, q). if pluginRuns g msg i q then runPlugin env msg g i q s else s)
                     st ps)) \<and>
   spam (runPlugin env msg g pluginId p st) = spam (snd (selectCommands env msg g p st)) \<and>
   events (runPlugin env msg g pluginId p st)
     = events (snd (selectCommands env msg g p st))
       @ execute g msg pluginId p (fst (selectCommands env msg g p st)) \<and>
   filter isInvoked (execute g msg pluginId p cs)
     = map (\<lambda>c. Invoked pluginId (trigger c)) (filter (scopeAllows g) cs) \<and>
   filter (\<lambda>e. \<not> isInvoked e) (execute g msg pluginId p cs)
     = map (\<lambda>c. LoggedError (name p) (trigger c))
           (filter (\<lambda>c. scopeAllows g c \<and> doMessageAction c msg (split (content msg)) = Threw) cs) \<and>
   isl (onMessage env msg st) = isl (onMessage (env\<lparr>plugins := quietPlugins (plugins env)\<rparr>) msg st) \<and>
   spam (finalState (onMessage env msg st))
     = spam (finalState (onMessage (env\<lparr>plugins := quietPlugins (plugins env)\<rparr>) msg st)) \<and>
   filter isInvoked (events (finalState (onMessage env msg st)))
     = filter isInvoked
         (events (finalState (onMessage (env\<lparr>plugins := quietPlugins (plugins env)\<rparr>) msg st)))"
proof -
  let ?env' = "env\<lparr>plugins := quietPlugins (plugins env)\<rparr>"
  have g: "guildOf ?env' msg = guildOf env msg"
    by (simp add: guildOf_def split: option.splits)
  have c: "routePlugins ?env' msg g' ps st = routePlugins env msg g' ps st" for g' ps
    by (rule routePlugins_env_cong) simp_all
  have q: "isl (onMessage env msg st) = isl (onMessage ?env' msg st) \<and>
     spam (finalState (onMessage env msg st)) = spam (finalState (onMessage ?env' msg st)) \<and>
     filter isInvoked (events (finalState (onMessage env msg st)))
       = filter isInvoked (events (finalState (onMessage ?env' msg st)))"
    using routePlugins_quiet [of st st env msg "guildOf env msg" "plugins env"]
    by (simp add: onMessage_def Let_def g c finalState_def)
  have o: "onMessage env msg st = routePlugins env msg (guildOf env msg) (plugins env) st"
    if "\<not> author_bot msg"
      "\<not> (maintenance env \<and> \<not> isOwner (env_owners env) (author_id msg))"
      "\<not> channelBlocked (guildOf env msg) msg"
    using that by (auto simp add: onMessage_def Let_def)
  have f: "routePlugins env msg g ps st
        = Inr (foldl (\<lambda>s (i, q). if pluginRuns g msg i q then runPlugin env msg g i q s else s)
                     st ps)"
    if "\<forall>(i, q) \<in> set ps.
        enabled q \<longrightarrow> (case g of None \<Rightarrow> True | Some gd \<Rightarrow> permissions gd i \<noteq> None)"
    using that by (rule routePlugins_fold)
  have r: "spam (runPlugin env msg g pluginId p st) = spam (snd (selectCommands env msg g p st))"
    "events (runPlugin env msg g pluginId p st)
     = events (snd (selectCommands env msg g p st))
       @ execute g msg pluginId p (fst (selectCommands env msg g p st))"
    by (simp_all add: runPlugin_def split: prod.splits)
  show ?thesis
    using q o f r execute_invoked [of g msg pluginId p cs] execute_logged [of g msg pluginId p cs]
    by blast
qed

text \<open>
  Claim C10. For a message that reaches the plugin loop with a guild context,
  \<open>onMessage\<close> completes if the guild has a permission record for every enabled plugin,
  and throws a \<open>TypeError\<close> if an enabled plugin has none; for such a plugin the error
  arises whatever the guild's \<open>enabledPlugins\<close> set is, before anything of the plugin runs.
\<close>
theorem missing_permission_aborts:
  assumes "\<not> author_bot msg"
    and "\<not> (maintenance env \<and> \<not> isOwner (env_owners env) (author_id msg))"
    and "guildOf env msg = Some gd"
    and "\<not> channelBlocked (Some gd) msg"
  shows "((\<forall>(pluginId, p) \<in> set (plugins env). enabled p \<longrightarrow> permissions gd pluginId \<noteq> None)
            \<longrightarrow> (\<exists>st'. onMessage env msg st = Inr st')) \<and>
         ((\<exists>(pluginId, p) \<in> set (plugins env). enabled p \<and> permissions gd pluginId = None)
            \<longrightarrow> (\<exists>st'. onMessage env msg st = Inl (TypeError, st'))) \<and>
         (enabled p \<and> permissions gd pluginId = None \<longrightarrow>
            routePlugin env msg (Some gd) pluginId p st = Inl (TypeError, st))"
proof -
  have o: "onMessage env msg st = routePlugins env msg (Some gd) (plugins env) st"
    using assms by (auto simp add: onMessage_def Let_def)
  have 1: "\<exists>st'. onMessage env msg st = Inr st'"
    if "\<forall>(pluginId, p) \<in> set (plugins env). enabled p \<longrightarrow> permissions gd pluginId \<noteq> None"
    using that routePlugins_completes_iff [of env msg gd "plugins env" st] o by simp
  have 2: "\<exists>st'. onMessage env msg st = Inl (TypeError, st')"
    if h: "\<exists>(pluginId, p) \<in> set (plugins env). enabled p \<and> permissions gd pluginId = None"
  proof -
    from h have "\<not> (\<forall>(pluginId, p) \<in> set (plugins env).
                    enabled p \<longrightarrow> permissions gd pluginId \<noteq> None)"
      by fastforce
    then have n: "\<not> (\<exists>st'. onMessage env msg st = Inr st')"
      using routePlugins_completes_iff [of env msg gd "plugins env" st] o by simp
    show ?thesis
    proof (cases "onMessage env msg st")
      case (Inl a)
      obtain e st' where "a = (e, st')" by (cases a)
      moreover have "e = TypeError" by (cases e)
      ultimately show ?thesis using Inl by simp
    next
      case (Inr b)
      with n show ?thesis by simp
    qed
  qed
  have 3: "routePlugin env msg (Some gd) pluginId p st = Inl (TypeError, st)"
    if "enabled p" "permissions gd pluginId = None"
    using that by (simp add: routePlugin_def)
  show ?thesis using 1 2 3 by blast
qed



















section \<open>The properties on the example configuration\<close>

lemma ex_selectors:
  "trigger ex_hello = ''hello''" "scope ex_hello = ''everywhere''"
  "\<not> bypassSpamDetection ex_hello"
  "triggeredBy ex_hello m l (Some pre) = startsWith l (pre @ ''hello'')"
  "doMessageAction ex_hello m ws = Returned"
  "trigger ex_audit = ''audit''" "scope ex_audit = ''guild''"
  "bypassSpamDetection ex_audit"
  "triggeredBy ex_audit m l q"
  "doMessageAction ex_audit m ws = Threw"
  "name ex_plugin = ''Greeter''" "prefix ex_plugin = ''p ''" "enabled ex_plugin"
  "commands_command ex_plugin = [ex_hello]" "commands_words ex_plugin = []"
  "commands_all ex_plugin = [ex_audit]"
  "commandPrefix ex_guild = ''!''" "allowedChannelIds ex_guild = {}"
  "enabledPlugins ex_guild = {}" "permissions ex_guild ''greeter'' = Some (\<lambda>u. True)"
  "maintenance ex_env = False" "env_owners ex_env = {''1''}"
  "plugins ex_env = [(''greeter'', ex_plugin)]"
  "onAction ex_env u n = Suc n" "isRestricted ex_env u n = (10 \<le> n)"
  "author_id ex_msg = ''2''" "\<not> author_bot ex_msg" "guild_id ex_msg = Some ''g1''"
  "channel_id ex_msg = ''c1''" "content ex_msg = ''!p hello''"
  "spam ex_st = 9" "events ex_st = []"
  by (simp_all add: ex_hello_def ex_audit_def ex_plugin_def ex_guild_def ex_env_def
      ex_msg_def ex_st_def)

lemma ex_guildOf: "guildOf ex_env ex_msg = Some ex_guild"
  by (simp add: guildOf_def ex_env_def ex_msg_def)

lemma ex_lowered: "toLowerCase ''!p hello'' = ''!p hello''"
  by code_simp

lemma ex_lowered_shout: "toLowerCase ''X!p hello'' = ''x!p hello''"
  by code_simp

lemma ex_prefixCandidates: "prefixCandidates (Some ex_guild) ex_msg ex_plugin = [ex_hello]"
  by (simp add: prefixCandidates_def isCommand_def effectivePrefix_def ex_selectors
      ex_lowered startsWith_def)

lemma ex_candidates: "candidates (Some ex_guild) ex_msg ex_plugin = [ex_hello]"
  by (simp add: candidates_def ex_prefixCandidates)

lemma ex_allMatches: "allMatches ex_msg ex_plugin = [ex_audit]"
  by (simp add: allMatches_def ex_selectors)

text \<open>
  The tenth action of author \<open>2\<close>: one spam action is registered, the prefix command
  \<open>hello\<close> is dropped and the \<open>all\<close> command \<open>audit\<close> runs.
\<close>

theorem spam_gate_witness:
  "\<not> isOwner (env_owners ex_env) (author_id ex_msg) \<and>
   candidates (Some ex_guild) ex_msg ex_plugin = [ex_hello] \<and>
   \<not> bypassSpamDetection ex_hello \<and>
   selectCommands ex_env ex_msg (Some ex_guild) ex_plugin ex_st
     = ([ex_audit], \<lparr>spam = 10, events = [SpamAction ''2'']\<rparr>) \<and>
   runPlugin ex_env ex_msg (Some ex_guild) ''greeter'' ex_plugin ex_st
     = \<lparr>spam = 10,
        events = [SpamAction ''2'', Invoked ''greeter'' ''audit'',
                  LoggedError ''Greeter'' ''audit'']\<rparr>"
  using spam_gate [of ex_env ex_msg "Some ex_guild" ex_plugin ex_st "''greeter''"]
  by (simp add: ex_candidates ex_allMatches isOwner_def ex_selectors scopeAllows_def ex_st_def)

theorem prefix_checks_witness:
  "prefixCandidates (Some ex_guild) ex_msg ex_plugin = [ex_hello] \<and>
   startsWith (content ex_msg) (commandPrefix ex_guild) \<and>
   startsWith (toLowerCase (content ex_msg)) (commandPrefix ex_guild @ prefix ex_plugin) \<and>
   toLowerCase (commandPrefix ex_guild) = commandPrefix ex_guild"
  using prefix_checks [of ex_guild ex_msg ex_plugin]
  by (simp add: ex_prefixCandidates)

text \<open>
  Guild prefix \<open>x!\<close>, message \<open>X!p hello\<close>: lower-cased, the message starts with the
  effective prefix, and still it is not a command and has no candidate.
\<close>

theorem case_insensitive_counterexample:
  "toLowerCase (content ex_shout) = toLowerCase (commandPrefix ex_guild_x) @ ''p hello'' \<and>
   startsWith (toLowerCase (content ex_shout)) (effectivePrefix (Some ex_guild_x) ex_plugin) \<and>
   \<not> isCommand (Some ex_guild_x) ex_shout \<and>
   prefixCandidates (Some ex_guild_x) ex_shout ex_plugin = [] \<and>
   candidates (Some ex_guild_x) ex_shout ex_plugin = []"
proof -
  have 1: "content ex_shout = ''X!p hello''" "commandPrefix ex_guild_x = ''x!''"
    by (simp_all add: ex_shout_def ex_guild_x_def)
  have 2: "toLowerCase ''x!'' = ''x!''" by code_simp
  show ?thesis
    by (simp add: 1 2 ex_lowered_shout candidates_def prefixCandidates_def isCommand_def
        effectivePrefix_def startsWith_def ex_selectors)
qed

lemma ex_runPlugin:
  "runPlugin ex_env ex_msg (Some ex_guild) ''greeter'' ex_plugin ex_st
     = \<lparr>spam = 10,
        events = [SpamAction ''2'', Invoked ''greeter'' ''audit'',
                  LoggedError ''Greeter'' ''audit'']\<rparr>"
  by (simp add: runPlugin_def selectCommands_def spamDetection_def ex_candidates ex_allMatches
      isOwner_def ex_selectors scopeAllows_def ex_st_def)

lemma ex_more_selectors:
  "author_id ex_owner_msg = ''1''" "\<not> author_bot ex_owner_msg"
  "guild_id ex_owner_msg = Some ''g1''" "channel_id ex_owner_msg = ''c1''"
  "content ex_owner_msg = ''!p hello''"
  "spam ex_st0 = 0" "events ex_st0 = []" "spam ex_st10 = 10" "events ex_st10 = []"
  "trigger ex_ping = ''ping''" "scope ex_ping = ''everywhere''" "bypassSpamDetection ex_ping"
  "triggeredBy ex_ping m l q" "doMessageAction ex_ping m ws = Returned"
  "name ex_plugin2 = ''Second''" "prefix ex_plugin2 = ''s ''" "enabled ex_plugin2"
  "commands_command ex_plugin2 = []" "commands_words ex_plugin2 = []"
  "commands_all ex_plugin2 = [ex_audit, ex_ping]"
  "commandPrefix ex_guild2 = ''!''" "allowedChannelIds ex_guild2 = {}"
  "enabledPlugins ex_guild2 = {}"
  "permissions ex_guild2 ''greeter'' = Some (\<lambda>u. True)"
  "permissions ex_guild2 ''second'' = Some (\<lambda>u. True)"
  "commandPrefix ex_guild_deny = ''!''" "allowedChannelIds ex_guild_deny = {}"
  "enabledPlugins ex_guild_deny = {}"
  "permissions ex_guild_deny ''greeter'' = Some (\<lambda>u. False)"
  "maintenance ex_env2 = False" "env_owners ex_env2 = {''1''}"
  "plugins ex_env2 = [(''greeter'', ex_plugin), (''second'', ex_plugin2)]"
  "onAction ex_env2 u n = Suc n" "isRestricted ex_env2 u n = (10 \<le> n)"
  by (simp_all add: ex_owner_msg_def ex_st0_def ex_st10_def ex_ping_def ex_plugin2_def
      ex_guild2_def ex_guild_deny_def ex_env2_def ex_selectors)

lemma ex_owner_candidates:
  "candidates (Some ex_guild) ex_owner_msg ex_plugin = [ex_hello]"
  "allMatches ex_owner_msg ex_plugin = [ex_audit]"
  by (simp_all add: candidates_def prefixCandidates_def isCommand_def effectivePrefix_def
      allMatches_def ex_selectors ex_more_selectors ex_lowered startsWith_def)

lemma ex_guild_listed_emptied:
  "setPluginEnabled [''greeter'', ''other''] ''greeter'' False
     (ex_guild\<lparr>enabledPlugins := {''greeter''}\<rparr>) = ex_guild"
  by (simp add: setPluginEnabled_def ex_guild_def)



theorem allowed_channel_gate_witness:
  "guildOf ex_env ex_msg = Some ex_guild \<and> allowedChannelIds ex_guild = {} \<and>
   onMessage ex_env ex_msg ex_st
     = routePlugins ex_env ex_msg (Some ex_guild) (plugins ex_env) ex_st \<and>
   guildOf (ex_env\<lparr>guilds := [''g1'' \<mapsto> ex_guild\<lparr>allowedChannelIds := {''c9''}\<rparr>]\<rparr>) ex_msg
     = Some (ex_guild\<lparr>allowedChannelIds := {''c9''}\<rparr>) \<and>
   onMessage (ex_env\<lparr>guilds := [''g1'' \<mapsto> ex_guild\<lparr>allowedChannelIds := {''c9''}\<rparr>]\<rparr>)
       ex_msg ex_st
     = Inr ex_st"
proof -
  let ?gd = "ex_guild\<lparr>allowedChannelIds := {''c9''}\<rparr>"
  let ?env = "ex_env\<lparr>guilds := [''g1'' \<mapsto> ?gd]\<rparr>"
  have g: "guildOf ?env ex_msg = Some ?gd"
    by (simp add: guildOf_def ex_selectors)
  show ?thesis
    using allowed_channel_gate [OF ex_guildOf, where st = ex_st]
      allowed_channel_gate [OF g, where st = ex_st]
    by (simp add: ex_selectors ex_guildOf g isOwner_def)
qed

text \<open>
  Owner \<open>1\<close> with ten actions on record, for whom the spam guard answers "restricted": in
  maintenance mode the message is routed, the prefix command \<open>hello\<close> is kept and run,
  and nothing is registered.
\<close>

theorem maintenance_and_owner_witness:
  "maintenance (ex_env\<lparr>maintenance := True\<rparr>) \<and>
   \<not> isOwner (env_owners (ex_env\<lparr>maintenance := True\<rparr>)) (author_id ex_msg) \<and>
   onMessage (ex_env\<lparr>maintenance := True\<rparr>) ex_msg ex_st = Inr ex_st \<and>
   isOwner (env_owners ex_env) (author_id ex_owner_msg) \<and>
   isRestricted ex_env (author_id ex_owner_msg) (spam ex_st10) \<and>
   spamDetection ex_env ex_owner_msg [ex_hello] ex_st10 = ([ex_hello], ex_st10) \<and>
   selectCommands ex_env ex_owner_msg (Some ex_guild) ex_plugin ex_st10
     = ([ex_hello, ex_audit], ex_st10) \<and>
   onMessage (ex_env\<lparr>maintenance := True\<rparr>) ex_owner_msg ex_st10
     = onMessage (ex_env\<lparr>maintenance := False\<rparr>) ex_owner_msg ex_st10 \<and>
   onMessage (ex_env\<lparr>maintenance := True\<rparr>) ex_owner_msg ex_st10
     = Inr \<lparr>spam = 10,
            events = [Invoked ''greeter'' ''hello'', Invoked ''greeter'' ''audit'',
                      LoggedError ''Greeter'' ''audit'']\<rparr> \<and>
   spam (finalState (onMessage ex_env ex_owner_msg ex_st10)) = 10"
proof -
  let ?envM = "ex_env\<lparr>maintenance := True\<rparr>"
  have m: "maintenance ?envM" "\<not> isOwner (env_owners ?envM) (author_id ex_msg)"
    by (simp_all add: isOwner_def ex_selectors)
  have o: "isOwner (env_owners ex_env) (author_id ex_owner_msg)"
    "isOwner (env_owners ?envM) (author_id ex_owner_msg)"
    by (simp_all add: isOwner_def ex_selectors ex_more_selectors)
  have r: "isRestricted ex_env (author_id ex_owner_msg) (spam ex_st10)"
    by (simp add: ex_selectors ex_more_selectors)
  have 1: "onMessage ?envM ex_msg ex_st = Inr ex_st"
    by (rule maintenance_and_owner
               [where env = ?envM and msg = ex_msg and st = ex_st, THEN conjunct1, THEN mp])
       (rule conjI [OF m])
  note u = maintenance_and_owner
             [where env = ex_env and msg = ex_owner_msg and st = ex_st10
                and cs = "[ex_hello]" and g = "Some ex_guild" and p = ex_plugin,
              THEN conjunct2, THEN mp, OF o(1)]
  note t = maintenance_and_owner
             [where env = ?envM and msg = ex_owner_msg and st = ex_st10
                and cs = "[ex_hello]" and g = "Some ex_guild" and p = ex_plugin,
              THEN conjunct2, THEN mp, OF o(2)]
  have 2: "onMessage ?envM ex_owner_msg ex_st10
       = onMessage (ex_env\<lparr>maintenance := False\<rparr>) ex_owner_msg ex_st10"
    using u by simp
  have 3: "spamDetection ex_env ex_owner_msg [ex_hello] ex_st10 = ([ex_hello], ex_st10)"
    using u by simp
  have 4: "selectCommands ex_env ex_owner_msg (Some ex_guild) ex_plugin ex_st10
       = ([ex_hello, ex_audit], ex_st10)"
    using u by (simp add: ex_owner_candidates)
  have 5: "spam (finalState (onMessage ex_env ex_owner_msg ex_st10)) = 10"
    using u by (simp add: ex_more_selectors)
  have g: "guildOf ?envM ex_owner_msg = Some ex_guild"
    by (simp add: guildOf_def ex_env_def ex_more_selectors)
  have s: "selectCommands ?envM ex_owner_msg (Some ex_guild) ex_plugin ex_st10
             = ([ex_hello, ex_audit], ex_st10)"
    using t by (simp add: ex_owner_candidates)
  have "onMessage ?envM ex_owner_msg ex_st10
     = routePlugins ?envM ex_owner_msg (guildOf ?envM ex_owner_msg) (plugins ?envM) ex_st10"
    by (rule t [THEN conjunct2, THEN conjunct1, THEN mp])
       (simp add: g channelBlocked_def ex_selectors ex_more_selectors)
  also have "\<dots> = Inr \<lparr>spam = 10,
            events = [Invoked ''greeter'' ''hello'', Invoked ''greeter'' ''audit'',
                      LoggedError ''Greeter'' ''audit'']\<rparr>"
    by (simp add: g routePlugin_def runPlugin_def s ex_selectors ex_more_selectors
        scopeAllows_def)
  finally have 6: "onMessage ?envM ex_owner_msg ex_st10
     = Inr \<lparr>spam = 10,
            events = [Invoked ''greeter'' ''hello'', Invoked ''greeter'' ''audit'',
                      LoggedError ''Greeter'' ''audit'']\<rparr>" .
  show ?thesis
    by (intro conjI) (rule m o(1) r 1 2 3 4 5 6)+
qed

theorem setPluginEnabled_sentinel_witness:
  "enabledPlugins ex_guild = {} \<and>
   enabledPlugins (setPluginEnabled [''greeter'', ''other''] ''greeter'' False ex_guild)
     = {''other''} \<and>
   setPluginEnabled [''greeter'', ''other''] ''greeter'' True ex_guild = ex_guild \<and>
   enabledPlugins (ex_guild\<lparr>enabledPlugins := {''greeter''}\<rparr>) = {''greeter''} \<and>
   enabledPlugins (setPluginEnabled [''greeter'', ''other''] ''greeter'' False
                     (ex_guild\<lparr>enabledPlugins := {''greeter''}\<rparr>)) = {} \<and>
   routePlugin ex_env ex_msg
       (Some (setPluginEnabled [''greeter'', ''other''] ''greeter'' False
                (ex_guild\<lparr>enabledPlugins := {''greeter''}\<rparr>))) ''greeter'' ex_plugin ex_st
     = routePlugin ex_env ex_msg (Some (ex_guild\<lparr>enabledPlugins := {''greeter''}\<rparr>))
         ''greeter'' ex_plugin ex_st \<and>
   routePlugin ex_env ex_msg
       (Some (setPluginEnabled [''greeter'', ''other''] ''greeter'' False
                (ex_guild\<lparr>enabledPlugins := {''greeter''}\<rparr>))) ''greeter'' ex_plugin ex_st
     = Inr \<lparr>spam = 10,
            events = [SpamAction ''2'', Invoked ''greeter'' ''audit'',
                      LoggedError ''Greeter'' ''audit'']\<rparr>"
proof -
  let ?listed = "ex_guild\<lparr>enabledPlugins := {''greeter''}\<rparr>"
  let ?emptied = "setPluginEnabled [''greeter'', ''other''] ''greeter'' False ?listed"
  note e = setPluginEnabled_sentinel
          [where g = ex_guild and installed = "[''greeter'', ''other'']"
             and pluginId = "''greeter''", THEN conjunct1, THEN mp]
  note t = setPluginEnabled_sentinel
          [where g = ?listed and installed = "[''greeter'', ''other'']"
             and pluginId = "''greeter''" and q = "''greeter''" and S = "{''greeter''}"
             and env = ex_env and msg = ex_msg and p = ex_plugin and st = ex_st
             and allows = "\<lambda>u. True", THEN conjunct2]
  have h: "enabledPlugins ex_guild = {}" "enabledPlugins ?listed = {''greeter''}"
    by (simp_all add: ex_selectors)
  have "enabledPlugins (setPluginEnabled [''greeter'', ''other''] ''greeter'' False ex_guild)
          = set [''greeter'', ''other''] - {''greeter''} \<and>
        setPluginEnabled [''greeter'', ''other''] ''greeter'' True ex_guild = ex_guild"
    by (rule e) (rule h(1))
  then have 1: "enabledPlugins
                  (setPluginEnabled [''greeter'', ''other''] ''greeter'' False ex_guild)
                = {''other''}"
    and 2: "setPluginEnabled [''greeter'', ''other''] ''greeter'' True ex_guild = ex_guild"
    by auto
  have "enabledPlugins ?emptied = {} \<and>
        routePlugin ex_env ex_msg (Some ?emptied) ''greeter'' ex_plugin ex_st
          = routePlugin ex_env ex_msg (Some (?listed\<lparr>enabledPlugins := {''greeter''}\<rparr>))
              ''greeter'' ex_plugin ex_st"
    by (rule t [THEN conjunct1, THEN mp]) (simp add: h)
  then have 3: "enabledPlugins ?emptied = {}"
    and 4: "routePlugin ex_env ex_msg (Some ?emptied) ''greeter'' ex_plugin ex_st
          = routePlugin ex_env ex_msg (Some ?listed) ''greeter'' ex_plugin ex_st"
    by simp_all
  have "routePlugin ex_env ex_msg (Some ?emptied) ''greeter'' ex_plugin ex_st
          = Inr (runPlugin ex_env ex_msg (Some ?emptied) ''greeter'' ex_plugin ex_st)"
    by (rule t [THEN conjunct2, THEN mp]) (simp add: ex_selectors)
  also have "\<dots> = Inr (runPlugin ex_env ex_msg (Some ex_guild) ''greeter'' ex_plugin ex_st)"
    by (simp only: ex_guild_listed_emptied)
  finally have 5: "routePlugin ex_env ex_msg (Some ?emptied) ''greeter'' ex_plugin ex_st
     = Inr \<lparr>spam = 10,
            events = [SpamAction ''2'', Invoked ''greeter'' ''audit'',
                      LoggedError ''Greeter'' ''audit'']\<rparr>"
    by (simp only: ex_runPlugin)
  show ?thesis
    by (intro conjI) (rule h 1 2 3 4 5)+
qed

lemma ex_second_plugin:
  "candidates (Some ex_guild2) ex_msg ex_plugin = [ex_hello]"
  "candidates (Some ex_guild2) ex_msg ex_plugin2 = []"
  "allMatches ex_msg ex_plugin2 = [ex_audit, ex_ping]"
  by (simp_all add: candidates_def prefixCandidates_def isCommand_def effectivePrefix_def
      allMatches_def ex_selectors ex_more_selectors ex_lowered startsWith_def)

lemma ex_guildOf2: "guildOf ex_env2 ex_msg = Some ex_guild2"
  by (simp add: guildOf_def ex_env2_def ex_selectors)

text \<open>
  Two plugins: the \<open>audit\<close> command of the first throws, and so does the one of the
  second; the commands after them and the second plugin are run all the same.
\<close>

theorem failure_isolation_witness:
  "\<not> author_bot ex_msg \<and> \<not> channelBlocked (guildOf ex_env2 ex_msg) ex_msg \<and>
   onMessage ex_env2 ex_msg ex_st0
     = Inr \<lparr>spam = 1,
            events = [SpamAction ''2'',
                      Invoked ''greeter'' ''hello'', Invoked ''greeter'' ''audit'',
                      LoggedError ''Greeter'' ''audit'',
                      Invoked ''second'' ''audit'', LoggedError ''Second'' ''audit'',
                      Invoked ''second'' ''ping'']\<rparr> \<and>
   filter isInvoked (execute (Some ex_guild) ex_msg ''greeter'' ex_plugin [ex_audit, ex_hello])
     = [Invoked ''greeter'' ''audit'', Invoked ''greeter'' ''hello''] \<and>
   filter (\<lambda>e. \<not> isInvoked e)
          (execute (Some ex_guild) ex_msg ''greeter'' ex_plugin [ex_audit, ex_hello])
     = [LoggedError ''Greeter'' ''audit''] \<and>
   execute (Some ex_guild) ex_msg ''greeter'' ex_plugin [ex_audit, ex_hello]
     = [Invoked ''greeter'' ''audit'', LoggedError ''Greeter'' ''audit'',
        Invoked ''greeter'' ''hello'']"
proof -
  note t = failure_isolation
          [where msg = ex_msg and env = ex_env2 and st = ex_st0 and g = "Some ex_guild2"
             and ps = "plugins ex_env2"]
  note x = failure_isolation
          [where g = "Some ex_guild" and msg = ex_msg and pluginId = "''greeter''"
             and p = ex_plugin and cs = "[ex_audit, ex_hello]" and env = ex_env and st = ex_st]
  have a: "\<not> author_bot ex_msg"
    by (simp add: ex_selectors)
  have b: "\<not> channelBlocked (guildOf ex_env2 ex_msg) ex_msg"
    by (simp add: ex_guildOf2 channelBlocked_def ex_more_selectors)
  have "onMessage ex_env2 ex_msg ex_st0
     = routePlugins ex_env2 ex_msg (guildOf ex_env2 ex_msg) (plugins ex_env2) ex_st0"
    by (rule t [THEN conjunct1, THEN mp]) (simp add: a b ex_more_selectors)
  also have "\<dots> = routePlugins ex_env2 ex_msg (Some ex_guild2) (plugins ex_env2) ex_st0"
    by (simp only: ex_guildOf2)
  also have "\<dots> = Inr (foldl (\<lambda>s (i, q). if pluginRuns (Some ex_guild2) ex_msg i q
                              then runPlugin ex_env2 ex_msg (Some ex_guild2) i q s else s)
                         ex_st0 (plugins ex_env2))"
    by (rule t [THEN conjunct2, THEN conjunct1, THEN mp])
       (simp add: ex_selectors ex_more_selectors)
  also have "\<dots> = Inr \<lparr>spam = 1,
            events = [SpamAction ''2'',
                      Invoked ''greeter'' ''hello'', Invoked ''greeter'' ''audit'',
                      LoggedError ''Greeter'' ''audit'',
                      Invoked ''second'' ''audit'', LoggedError ''Second'' ''audit'',
                      Invoked ''second'' ''ping'']\<rparr>"
    by (simp add: pluginRuns_def runPlugin_def selectCommands_def spamDetection_def
        ex_second_plugin ex_allMatches isOwner_def scopeAllows_def ex_selectors
        ex_more_selectors)
  finally have 1: "onMessage ex_env2 ex_msg ex_st0
     = Inr \<lparr>spam = 1,
            events = [SpamAction ''2'',
                      Invoked ''greeter'' ''hello'', Invoked ''greeter'' ''audit'',
                      LoggedError ''Greeter'' ''audit'',
                      Invoked ''second'' ''audit'', LoggedError ''Second'' ''audit'',
                      Invoked ''second'' ''ping'']\<rparr>" .
  have f: "filter (scopeAllows (Some ex_guild)) [ex_audit, ex_hello] = [ex_audit, ex_hello]"
    "filter (\<lambda>c. scopeAllows (Some ex_guild) c
                 \<and> doMessageAction c ex_msg (split (content ex_msg)) = Threw)
            [ex_audit, ex_hello] = [ex_audit]"
    by (simp_all add: ex_selectors scopeAllows_def)
  have 2: "filter isInvoked
             (execute (Some ex_guild) ex_msg ''greeter'' ex_plugin [ex_audit, ex_hello])
     = [Invoked ''greeter'' ''audit'', Invoked ''greeter'' ''hello'']"
    by (simp only: x [THEN conjunct2, THEN conjunct2, THEN conjunct2, THEN conjunct2,
                      THEN conjunct1] f)
       (simp add: ex_selectors)
  have 3: "filter (\<lambda>e. \<not> isInvoked e)
          (execute (Some ex_guild) ex_msg ''greeter'' ex_plugin [ex_audit, ex_hello])
     = [LoggedError ''Greeter'' ''audit'']"
    by (simp only: x [THEN conjunct2, THEN conjunct2, THEN conjunct2, THEN conjunct2,
                      THEN conjunct2, THEN conjunct1] f)
       (simp add: ex_selectors)
  have 4: "execute (Some ex_guild) ex_msg ''greeter'' ex_plugin [ex_audit, ex_hello]
     = [Invoked ''greeter'' ''audit'', LoggedError ''Greeter'' ''audit'',
        Invoked ''greeter'' ''hello'']"
    by (simp add: ex_selectors scopeAllows_def)
  show ?thesis
    by (intro conjI) (rule a b 1 2 3 4)+
qed

lemma ex_noperm_guildOf:
  "guildOf (ex_env\<lparr>guilds := [''g1'' \<mapsto> ex_guild\<lparr>permissions := Map.empty\<rparr>]\<rparr>) ex_msg
     = Some (ex_guild\<lparr>permissions := Map.empty\<rparr>)"
  by (simp add: guildOf_def ex_selectors)

theorem missing_permission_aborts_witness:
  "\<not> author_bot ex_msg \<and> guildOf ex_env ex_msg = Some ex_guild \<and>
   \<not> channelBlocked (Some ex_guild) ex_msg \<and>
   onMessage ex_env ex_msg ex_st
     = Inr \<lparr>spam = 10,
            events = [SpamAction ''2'', Invoked ''greeter'' ''audit'',
                      LoggedError ''Greeter'' ''audit'']\<rparr> \<and>
   onMessage (ex_env\<lparr>guilds := [''g1'' \<mapsto> ex_guild\<lparr>permissions := Map.empty\<rparr>]\<rparr>) ex_msg ex_st
     = Inl (TypeError, ex_st) \<and>
   routePlugin ex_env ex_msg
       (Some (ex_guild\<lparr>permissions := Map.empty, enabledPlugins := {''other''}\<rparr>))
       ''greeter'' ex_plugin ex_st
     = Inl (TypeError, ex_st)"
proof -
  let ?gd = "ex_guild\<lparr>permissions := Map.empty\<rparr>"
  let ?env = "ex_env\<lparr>guilds := [''g1'' \<mapsto> ?gd]\<rparr>"
  have b: "\<not> channelBlocked (Some ex_guild) ex_msg" "\<not> channelBlocked (Some ?gd) ex_msg"
    by (simp_all add: channelBlocked_def ex_selectors)
  have m: "\<not> (maintenance ex_env \<and> \<not> isOwner (env_owners ex_env) (author_id ex_msg))"
    "\<not> (maintenance ?env \<and> \<not> isOwner (env_owners ?env) (author_id ex_msg))"
    by (simp_all add: ex_selectors)
  have a: "\<not> author_bot ex_msg" by (simp add: ex_selectors)
  have 1: "onMessage ex_env ex_msg ex_st
     = Inr \<lparr>spam = 10,
            events = [SpamAction ''2'', Invoked ''greeter'' ''audit'',
                      LoggedError ''Greeter'' ''audit'']\<rparr>"
    using a b m by (simp add: onMessage_def ex_guildOf ex_selectors routePlugin_def ex_runPlugin)
  have 2: "onMessage ?env ex_msg ex_st = Inl (TypeError, ex_st)"
    using a b m by (simp add: onMessage_def ex_noperm_guildOf ex_selectors routePlugin_def)
  have 3: "routePlugin ex_env ex_msg
       (Some (ex_guild\<lparr>permissions := Map.empty, enabledPlugins := {''other''}\<rparr>))
       ''greeter'' ex_plugin ex_st = Inl (TypeError, ex_st)"
    using missing_permission_aborts
            [OF a m(2) ex_noperm_guildOf b(2),
             where p = ex_plugin and pluginId = "''greeter''" and st = ex_st]
    by (simp add: routePlugin_def ex_selectors)
  show ?thesis
    using missing_permission_aborts
            [OF a m(1) ex_guildOf b(1),
             where p = ex_plugin and pluginId = "''greeter''" and st = ex_st]
      a b 1 2 3 ex_guildOf
    by simp
qed





end
